theory Spec2Isabelle
  imports Complex_Main "HOL-Library.Sublist" "HOL-Library.Log_Nat"
begin

section \<open>Python values and exceptions\<close>

text \<open>
  The request body, the embedding vector and the index's answer are dynamically typed
  Python values. A \<open>dict\<close> is an association list read with \<open>map_of\<close> (the keys of a
  parsed JSON object are distinct).

  A Python \<open>float\<close> is an IEEE 754 binary64 value: a finite value is represented by the
  rational number it denotes (\<open>Fin 0\<close> is \<open>0.0\<close>), and negative zero, the two infinities
  and NaN are values of their own.
\<close>

datatype pyfloat = Fin rat | NegZero | PosInf | NegInf | NaN

datatype pyval =
    PNone
  | PBool bool
  | PInt int
  | PFloat pyfloat
  | PStr string
  | PList "pyval list"
  | PDict "(string \<times> pyval) list"

text \<open>
  An exception is its class name and the text \<open>str(e)\<close> gives. Only classes derived
  from \<open>Exception\<close> are modelled: they are the ones \<open>except Exception\<close> catches.
\<close>

datatype exn = Exn (exn_class: string) (str_exn: string)

definition quoted :: "string \<Rightarrow> string" where
  "quoted s = CHR 0x27 # s @ [CHR 0x27]"

fun type_name :: "pyval \<Rightarrow> string" where
  "type_name PNone = ''NoneType''"
| "type_name (PBool _) = ''bool''"
| "type_name (PInt _) = ''int''"
| "type_name (PFloat _) = ''float''"
| "type_name (PStr _) = ''str''"
| "type_name (PList _) = ''list''"
| "type_name (PDict _) = ''dict''"

text \<open>Truth value of a Python value, as \<open>not v\<close> tests it.\<close>

fun truthy :: "pyval \<Rightarrow> bool" where
  "truthy PNone = False"
| "truthy (PBool b) = b"
| "truthy (PInt i) = (i \<noteq> 0)"
| "truthy (PFloat (Fin r)) = (r \<noteq> 0)"
| "truthy (PFloat NegZero) = False"
| "truthy (PFloat f) = True"
| "truthy (PStr s) = (s \<noteq> [])"
| "truthy (PList xs) = (xs \<noteq> [])"
| "truthy (PDict kvs) = (kvs \<noteq> [])"

text \<open>
  \<open>k in v\<close> for a string \<open>k\<close>: key membership in a dict, element membership in a list,
  substring test in a string, \<open>TypeError\<close> for every other value.
\<close>

fun py_in :: "string \<Rightarrow> pyval \<Rightarrow> exn + bool" where
  "py_in k (PDict kvs) = Inr (k \<in> set (map fst kvs))"
| "py_in k (PList xs) = Inr (PStr k \<in> set xs)"
| "py_in k (PStr s) = Inr (sublist k s)"
| "py_in k v =
     Inl (Exn ''TypeError'' (''argument of type '' @ quoted (type_name v) @ '' is not iterable''))"

text \<open>\<open>v[k]\<close> for a string \<open>k\<close>: only a dict can be subscripted by a string.\<close>

fun getitem :: "pyval \<Rightarrow> string \<Rightarrow> exn + pyval" where
  "getitem (PDict kvs) k =
     (case map_of kvs k of None \<Rightarrow> Inl (Exn ''KeyError'' (quoted k)) | Some v \<Rightarrow> Inr v)"
| "getitem (PList xs) k =
     Inl (Exn ''TypeError'' ''list indices must be integers or slices, not str'')"
| "getitem (PStr s) k =
     Inl (Exn ''TypeError'' (''string indices must be integers, not '' @ quoted ''str''))"
| "getitem v k =
     Inl (Exn ''TypeError'' (quoted (type_name v) @ '' object is not subscriptable''))"

text \<open>\<open>v.get(k, default)\<close>: a method of dicts only.\<close>

fun py_get :: "pyval \<Rightarrow> string \<Rightarrow> pyval \<Rightarrow> exn + pyval" where
  "py_get (PDict kvs) k dflt = Inr (case map_of kvs k of None \<Rightarrow> dflt | Some v \<Rightarrow> v)"
| "py_get v k dflt =
     Inl (Exn ''AttributeError''
            (quoted (type_name v) @ '' object has no attribute '' @ quoted ''get''))"

text \<open>The elements a \<open>for\<close> loop over a value visits.\<close>

fun py_iter :: "pyval \<Rightarrow> exn + pyval list" where
  "py_iter (PList xs) = Inr xs"
| "py_iter (PDict kvs) = Inr (map (\<lambda>kv. PStr (fst kv)) kvs)"
| "py_iter (PStr s) = Inr (map (\<lambda>c. PStr [c]) s)"
| "py_iter v = Inl (Exn ''TypeError'' (quoted (type_name v) @ '' object is not iterable''))"

subsection \<open>\<open>round(x, 4)\<close>\<close>

text \<open>
  On a finite float, \<open>round(x, ndigits)\<close> works in two steps. The exact value of \<open>x\<close> is
  rounded to \<open>ndigits\<close> decimal places, a tie going to the even neighbour; the decimal
  number obtained is then converted back to a float, that is, to the nearest binary64
  value, again with ties to even. The sign of \<open>x\<close> is kept when the result is zero, and
  \<open>OverflowError\<close> is raised when the conversion leaves the range of finite floats.
  Infinities, NaN and negative zero round to themselves.

  On an \<open>int\<close> the value is returned unchanged, a \<open>bool\<close> becomes the \<open>int\<close> it stands
  for, any other value raises \<open>TypeError\<close>.
\<close>

definition round_half_even :: "rat \<Rightarrow> int" where
  "round_half_even q =
     (let f = \<lfloor>q\<rfloor>; d = q - of_int f
      in if d < 1 / 2 then f
         else if 1 / 2 < d then f + 1
         else if even f then f else f + 1)"

definition round_ndigits :: "rat \<Rightarrow> nat \<Rightarrow> rat" where
  "round_ndigits x n = of_int (round_half_even (x * 10 ^ n)) / 10 ^ n"

text \<open>
  \<open>ilog2 a\<close> is the binary exponent of a positive \<open>a\<close>: the \<open>e\<close> with
  \<open>2\<^sup>e \<le> a < 2\<^sup>e\<^sup>+\<^sup>1\<close>. \<open>ulp a\<close> is the distance between neighbouring binary64 values
  around \<open>a\<close>: 53 significant bits, and a smallest exponent of \<open>-1022\<close>, below which the
  values are subnormal and evenly spaced.
\<close>

definition ilog2 :: "rat \<Rightarrow> int" where
  "ilog2 a = (if 1 \<le> a then bitlen \<lfloor>a\<rfloor> - 1 else - bitlen (\<lceil>1 / a\<rceil> - 1))"

definition ulp :: "rat \<Rightarrow> rat" where
  "ulp a = 2 powi (max (ilog2 a) (- 1022) - 52)"

text \<open>
  The binary64 value nearest to a rational, ties to even. Results of magnitude
  \<open>2\<^sup>1\<^sup>0\<^sup>2\<^sup>4\<close> and above are out of range.
\<close>

definition nearest_double :: "rat \<Rightarrow> rat" where
  "nearest_double q =
     (if q = 0 then 0
      else sgn q * of_int (round_half_even (\<bar>q\<bar> / ulp \<bar>q\<bar>)) * ulp \<bar>q\<bar>)"

fun float_round :: "pyfloat \<Rightarrow> nat \<Rightarrow> exn + pyfloat" where
  "float_round (Fin x) n =
     (let r = nearest_double (round_ndigits x n)
      in if 2 ^ 1024 \<le> \<bar>r\<bar> then
           Inl (Exn ''OverflowError'' ''rounded value too large to represent'')
         else if r = 0 \<and> x < 0 then Inr NegZero
         else Inr (Fin r))"
| "float_round f n = Inr f"

fun py_round :: "pyval \<Rightarrow> nat \<Rightarrow> exn + pyval" where
  "py_round (PFloat x) n =
     (case float_round x n of Inl e \<Rightarrow> Inl e | Inr r \<Rightarrow> Inr (PFloat r))"
| "py_round (PInt i) n = Inr (PInt i)"
| "py_round (PBool b) n = Inr (PInt (if b then 1 else 0))"
| "py_round v n =
     Inl (Exn ''TypeError''
            (''type '' @ type_name v @ '' doesn't define __round__ method''))"

section \<open>Configuration and process-wide state\<close>

definition EMBEDDING_MODEL_NAME :: string where
  "EMBEDDING_MODEL_NAME = ''all-MiniLM-L6-v2''"

definition INDEX_NAME :: string where
  "INDEX_NAME = ''kelleher-hvac-parts-free''"

text \<open>
  The three handles are objects of external libraries; each is modelled by the one
  method the program calls on it, which returns a value or raises.
  \<^item> \<open>encode_tolist m d\<close> is \<open>m.encode([d], convert_to_numpy=True).tolist()\<close>, the list of
    rows;
  \<^item> \<open>query ix v k\<close> is \<open>ix.query(vector=v, top_k=k, include_metadata=True)\<close>;
  \<^item> \<open>Index p name\<close> is \<open>p.Index(name)\<close>.
  A handle object is truthy.
\<close>

datatype model_h = ModelH (encode_tolist: "pyval \<Rightarrow> exn + pyval list")

datatype index_h = IndexH (query: "pyval \<Rightarrow> pyval \<Rightarrow> exn + pyval")

datatype pinecone_h = PineconeH (Index: "string \<Rightarrow> exn + index_h")

text \<open>
  The module-level names. For \<open>pc\<close> and \<open>embedding_model\<close>, \<open>None\<close> is Python's \<open>None\<close>;
  \<open>index\<close> is never assigned \<open>None\<close>, and \<open>None\<close> stands for a name that was never bound.
\<close>

record service_state =
  pc :: "pinecone_h option"
  index :: "index_h option"
  embedding_model :: "model_h option"

text \<open>What the start of the process depends on: the environment and the two constructors.\<close>

record init_env =
  environ_get :: "string \<Rightarrow> string option"
  Pinecone :: "string \<Rightarrow> exn + pinecone_h"
  SentenceTransformer :: "string \<Rightarrow> exn + model_h"

text \<open>
  The body of the \<open>try\<close> block: the exception raised, if any, and the names as they are
  bound when the block is left.
\<close>

definition init_try :: "init_env \<Rightarrow> service_state \<Rightarrow> exn option \<times> service_state" where
  "init_try env s0 =
     (case environ_get env ''PINECONE_KEY'' of
        None \<Rightarrow> (Some (Exn ''ValueError'' ''PINECONE_KEY environment variable not set.''), s0)
      | Some key \<Rightarrow>
          if key = [] then
            (Some (Exn ''ValueError'' ''PINECONE_KEY environment variable not set.''), s0)
          else
            (case Pinecone env key of
               Inl e \<Rightarrow> (Some e, s0)
             | Inr p \<Rightarrow>
                 let s1 = s0\<lparr>pc := Some p\<rparr> in
                 (case Index p INDEX_NAME of
                    Inl e \<Rightarrow> (Some e, s1)
                  | Inr i \<Rightarrow>
                      let s2 = s1\<lparr>index := Some i\<rparr> in
                      (case SentenceTransformer env EMBEDDING_MODEL_NAME of
                         Inl e \<Rightarrow> (Some e, s2)
                       | Inr m \<Rightarrow> (None, s2\<lparr>embedding_model := Some m\<rparr>)))))"

text \<open>Module initialisation: the \<open>try\<close> block, then the \<open>except Exception\<close> handler.\<close>

definition module_init :: "init_env \<Rightarrow> service_state" where
  "module_init env =
     (case init_try env \<lparr>pc = None, index = None, embedding_model = None\<rparr> of
        (None, s) \<Rightarrow> s
      | (Some e, s) \<Rightarrow> s\<lparr>pc := None, embedding_model := None\<rparr>)"

section \<open>The matcher\<close>

text \<open>Calls made to the external services, in the order they are made.\<close>

datatype event = EncodeCall pyval | QueryCall pyval pyval

text \<open>The dict appended for one match; the three entries are evaluated in this order.\<close>

definition match_entry :: "pyval \<Rightarrow> exn + pyval" where
  "match_entry match =
     (case getitem match ''id'' of
        Inl e \<Rightarrow> Inl e
      | Inr part_number \<Rightarrow>
          (case getitem match ''metadata'' of
             Inl e \<Rightarrow> Inl e
           | Inr metadata \<Rightarrow>
               (case getitem metadata ''description'' of
                  Inl e \<Rightarrow> Inl e
                | Inr description \<Rightarrow>
                    (case getitem match ''score'' of
                       Inl e \<Rightarrow> Inl e
                     | Inr score \<Rightarrow>
                         (case py_round score 4 of
                            Inl e \<Rightarrow> Inl e
                          | Inr rounded \<Rightarrow>
                              Inr (PDict [(''part_number'', part_number),
                                          (''description'', description),
                                          (''score'', rounded)]))))))"

text \<open>The \<open>for match in ...\<close> loop, \<open>matches\<close> being the list built so far.\<close>

fun process_matches :: "pyval list \<Rightarrow> pyval list \<Rightarrow> exn + pyval list" where
  "process_matches [] matches = Inr matches"
| "process_matches (match # rest) matches =
     (case match_entry match of
        Inl e \<Rightarrow> Inl e
      | Inr entry \<Rightarrow> process_matches rest (matches @ [entry]))"

definition build_matches :: "pyval \<Rightarrow> exn + pyval list" where
  "build_matches query_results =
     (case getitem query_results ''matches'' of
        Inl e \<Rightarrow> Inl e
      | Inr ms \<Rightarrow> (case py_iter ms of Inl e \<Rightarrow> Inl e | Inr xs \<Rightarrow> process_matches xs []))"

definition find_matching_parts ::
  "service_state \<Rightarrow> pyval \<Rightarrow> pyval \<Rightarrow> (exn + string \<times> pyval list) \<times> event list" where
  "find_matching_parts st technician_description top_k =
     (case (embedding_model st, pc st) of
        (Some m, Some p) \<Rightarrow>
          (let ev1 = [EncodeCall technician_description] in
           case encode_tolist m technician_description of
             Inl e \<Rightarrow> (Inl e, ev1)
           | Inr [] \<Rightarrow> (Inl (Exn ''IndexError'' ''list index out of range''), ev1)
           | Inr (query_vector # _) \<Rightarrow>
               (case index st of
                  None \<Rightarrow> (Inl (Exn ''NameError'' ''name 'index' is not defined''), ev1)
                | Some ix \<Rightarrow>
                    (let ev2 = ev1 @ [QueryCall query_vector top_k] in
                     case query ix query_vector top_k of
                       Inl e \<Rightarrow> (Inl e, ev2)
                     | Inr query_results \<Rightarrow>
                         (case build_matches query_results of
                            Inl e \<Rightarrow> (Inl e, ev2)
                          | Inr matches \<Rightarrow> (Inr (''Success'', matches), ev2)))))
      | _ \<Rightarrow> (Inr (''Service not initialized.'', []), []))"

section \<open>The HTTP entry point\<close>

text \<open>
  \<open>jsonify\<close> builds a response object with a JSON body; the only header it sets is the
  content type. The request is represented by what \<open>request.get_json(silent=True)\<close>
  returns: the parsed body, or \<open>None\<close> when the body is absent, is not declared as JSON or
  does not parse.
\<close>

record response =
  data :: pyval
  headers :: "(string \<times> string) list"

definition jsonify :: "pyval \<Rightarrow> response" where
  "jsonify v = \<lparr>data = v, headers = [(''Content-Type'', ''application/json'')]\<rparr>"

datatype request = Request (get_json_silent: pyval)

text \<open>
  The handler returns a pair of a response object and a status code, or raises. The local
  \<open>headers\<close> is bound as in the source and, as in the source, appears in no \<open>return\<close>.
\<close>

definition query_part_finder ::
  "service_state \<Rightarrow> request \<Rightarrow> (exn + response \<times> nat) \<times> event list" where
  "query_part_finder st request =
     (let headers = [(''Access-Control-Allow-Origin'', ''*'')] in
      if embedding_model st = None \<or> pc st = None then
        (Inr (jsonify (PDict [(''error'',
                PStr ''Service initialization failed. Check server logs.'')]), 500), [])
      else
        (let request_json = get_json_silent request in
         if \<not> truthy request_json then
           (Inr (jsonify (PDict [(''error'',
                   PStr ''Missing 'description' in request body.'')]), 400), [])
         else
           (case py_in ''description'' request_json of
              Inl e \<Rightarrow> (Inl e, [])
            | Inr False \<Rightarrow>
                (Inr (jsonify (PDict [(''error'',
                        PStr ''Missing 'description' in request body.'')]), 400), [])
            | Inr True \<Rightarrow>
                (case getitem request_json ''description'' of
                   Inl e \<Rightarrow> (Inl e, [])
                 | Inr description \<Rightarrow>
                     (case py_get request_json ''top_k'' (PInt 3) of
                        Inl e \<Rightarrow> (Inl e, [])
                      | Inr top_k \<Rightarrow>
                          (case find_matching_parts st description top_k of
                             (Inr (status, matches), evs) \<Rightarrow>
                               (Inr (jsonify (PDict [(''query_description'', description),
                                                     (''status'', PStr status),
                                                     (''matches'', PList matches)]), 200), evs)
                           | (Inl e, evs) \<Rightarrow>
                               (Inr (jsonify (PDict [(''error'',
                                       PStr (''An unexpected search error occurred: ''
                                             @ str_exn e))]), 500), evs)))))))"

section \<open>The index's contract and the expected results\<close>

text \<open>
  A float the index or the request can supply: a finite one is a binary64 value, of
  magnitude below \<open>2\<^sup>1\<^sup>0\<^sup>2\<^sup>4\<close> and a whole multiple of the \<open>ulp\<close> of its size.
\<close>

definition is_double :: "rat \<Rightarrow> bool" where
  "is_double q =
     (q = 0 \<or> (\<bar>q\<bar> < 2 ^ 1024 \<and> of_int \<lfloor>\<bar>q\<bar> / ulp \<bar>q\<bar>\<rfloor> = \<bar>q\<bar> / ulp \<bar>q\<bar>))"


text \<open>
  Rounding to decimal places, stated without the algorithm: \<open>d\<close> has at most \<open>n\<close> decimal
  places, no number with \<open>n\<close> decimal places is nearer to \<open>s\<close>, and when \<open>s\<close> lies midway
  between two of them \<open>d\<close> is the one whose last digit is even.
\<close>

definition is_decimal_rounding :: "rat \<Rightarrow> nat \<Rightarrow> rat \<Rightarrow> bool" where
  "is_decimal_rounding s n d =
     (let k = \<lfloor>d * 10 ^ n\<rfloor>
      in of_int k = d * 10 ^ n
         \<and> \<bar>d - s\<bar> * (2 * 10 ^ n) \<le> 1
         \<and> (\<bar>d - s\<bar> * (2 * 10 ^ n) = 1 \<longrightarrow> even k))"







text \<open>Python's \<open>a <= b\<close> on floats: false when either side is NaN.\<close>

fun float_value :: "pyfloat \<Rightarrow> rat" where
  "float_value (Fin q) = q"
| "float_value f = 0"




section \<open>Stub services for concrete runs\<close>

text \<open>
  A model that embeds every description as the same vector; an index that answers every
  query with the same three matches, of scores 0.8765716552734375, 0.09375 and 0.03125
  (all three are binary64 values), and the results expected for them, 0.8766, 0.0938 and
  0.0312 as floats; an index that reports the \<open>top_k\<close> it was queried with as the
  identifier of its only match; an index whose query raises; the service states built
  from them; and environments in which start-up succeeds or the model fails to load.
\<close>

definition stub_vector :: pyval where
  "stub_vector = PList [PFloat (Fin (1 / 2)), PFloat (Fin (- 1 / 4))]"

definition stub_model :: model_h where
  "stub_model = ModelH (\<lambda>d. Inr [stub_vector])"

definition stub_match_1 :: pyval where
  "stub_match_1 = PDict [(''id'', PStr ''P-100''), (''score'', PFloat (Fin (57447 / 65536))),
                         (''metadata'', PDict [(''description'', PStr ''blower motor'')])]"

definition stub_match_2 :: pyval where
  "stub_match_2 = PDict [(''id'', PStr ''P-200''), (''score'', PFloat (Fin (3 / 32))),
                         (''metadata'', PDict [(''description'', PStr ''fan belt'')])]"

definition stub_match_3 :: pyval where
  "stub_match_3 = PDict [(''id'', PStr ''P-300''), (''score'', PFloat (Fin (1 / 32))),
                         (''metadata'', PDict [(''description'', PStr ''capacitor'')])]"


definition stub_results :: "pyval list" where
  "stub_results =
     [PDict [(''part_number'', PStr ''P-100''), (''description'', PStr ''blower motor''),
             (''score'', PFloat (Fin (3947855433352977 / 4503599627370496)))],
      PDict [(''part_number'', PStr ''P-200''), (''description'', PStr ''fan belt''),
             (''score'', PFloat (Fin (844875290094705 / 9007199254740992)))],
      PDict [(''part_number'', PStr ''P-300''), (''description'', PStr ''capacitor''),
             (''score'', PFloat (Fin (4496393867966703 / 144115188075855872)))]]"

definition stub_index :: index_h where
  "stub_index =
     IndexH (\<lambda>v k. Inr (PDict [(''matches'', PList [stub_match_1, stub_match_2, stub_match_3])]))"

definition stub_pinecone :: pinecone_h where
  "stub_pinecone = PineconeH (\<lambda>name. Inr stub_index)"

definition healthy_state :: service_state where
  "healthy_state = \<lparr>pc = Some stub_pinecone, index = Some stub_index,
                     embedding_model = Some stub_model\<rparr>"

definition echo_index :: index_h where
  "echo_index =
     IndexH (\<lambda>v k. Inr (PDict [(''matches'', PList
       [PDict [(''id'', k), (''score'', PFloat (Fin (1 / 2))),
               (''metadata'', PDict [(''description'', PStr ''echo'')])]])]))"

definition echo_state :: service_state where
  "echo_state = \<lparr>pc = Some stub_pinecone, index = Some echo_index,
                  embedding_model = Some stub_model\<rparr>"

definition echo_response :: "pyval \<Rightarrow> response" where
  "echo_response k =
     jsonify (PDict [(''query_description'', PStr ''x''), (''status'', PStr ''Success''),
       (''matches'', PList
          [PDict [(''part_number'', k), (''description'', PStr ''echo''),
                  (''score'', PFloat (Fin (1 / 2)))]])])"

definition failing_index :: index_h where
  "failing_index = IndexH (\<lambda>v k. Inl (Exn ''PineconeException'' ''index unavailable''))"

definition failing_state :: service_state where
  "failing_state = \<lparr>pc = Some stub_pinecone, index = Some failing_index,
                     embedding_model = Some stub_model\<rparr>"

definition degraded_state :: service_state where
  "degraded_state = \<lparr>pc = None, index = None, embedding_model = None\<rparr>"

definition env_ok :: init_env where
  "env_ok = \<lparr>environ_get = (\<lambda>name. if name = ''PINECONE_KEY'' then Some ''secret'' else None),
              Pinecone = (\<lambda>key. Inr stub_pinecone),
              SentenceTransformer = (\<lambda>name. Inr stub_model)\<rparr>"

definition env_model_fails :: init_env where
  "env_model_fails =
     env_ok\<lparr>SentenceTransformer := (\<lambda>name. Inl (Exn ''OSError'' ''model not found''))\<rparr>"

section \<open>Rounding\<close>

text \<open>
  The decimal step: \<open>round_ndigits\<close> meets \<open>is_decimal_rounding\<close>, and is the only number
  that does; it is monotone. The binary step: \<open>nearest_double\<close> is within half an \<open>ulp\<close>,
  returns a binary64 value, leaves binary64 values unchanged and is monotone. Rounding a
  binary64 value to decimal places never leaves the range of floats.
\<close>

lemma round_half_even_bounds: "\<lfloor>q\<rfloor> \<le> round_half_even q \<and> round_half_even q \<le> \<lfloor>q\<rfloor> + 1"
  by (simp add: round_half_even_def Let_def)

lemma round_half_even_mono:
  assumes "x \<le> y"
  shows "round_half_even x \<le> round_half_even y"
proof (cases "\<lfloor>x\<rfloor> = \<lfloor>y\<rfloor>")
  case True
  from assms True have "x - of_int \<lfloor>x\<rfloor> \<le> y - of_int \<lfloor>y\<rfloor>" by simp
  with True show ?thesis
    by (auto simp: round_half_even_def Let_def)
next
  case False
  from assms have "\<lfloor>x\<rfloor> \<le> \<lfloor>y\<rfloor>" by (rule floor_mono)
  with False have "\<lfloor>x\<rfloor> + 1 \<le> \<lfloor>y\<rfloor>" by simp
  with round_half_even_bounds [of x] round_half_even_bounds [of y] show ?thesis
    by linarith
qed

lemma round_half_even_of_int: "round_half_even (of_int k) = k"
  by (simp add: round_half_even_def)

lemma round_half_even_error: "\<bar>of_int (round_half_even q) - q\<bar> \<le> 1 / 2"
proof -
  have "of_int \<lfloor>q\<rfloor> \<le> q" "q < of_int \<lfloor>q\<rfloor> + 1" by linarith+
  then show ?thesis
    by (auto simp: round_half_even_def Let_def abs_le_iff)
qed

lemma round_half_even_tie:
  assumes "\<bar>of_int (round_half_even q) - q\<bar> = 1 / 2"
  shows "even (round_half_even q)"
proof -
  define f where "f = \<lfloor>q\<rfloor>"
  define d where "d = q - of_int f"
  have d: "0 \<le> d" "d < 1" unfolding d_def f_def by linarith+
  have q: "q = of_int f + d" by (simp add: d_def)
  have r: "round_half_even q =
      (if d < 1 / 2 then f else if 1 / 2 < d then f + 1 else if even f then f else f + 1)"
    by (simp add: round_half_even_def Let_def f_def d_def)
  from assms d show ?thesis
    unfolding r by (auto simp: q abs_if split: if_splits)
qed

lemma round_half_even_unique:
  assumes "\<bar>of_int k - q\<bar> \<le> 1 / 2" and "\<bar>of_int k - q\<bar> = 1 / 2 \<longrightarrow> even k"
  shows "k = round_half_even q"
proof -
  let ?r = "round_half_even q"
  have e: "\<bar>of_int ?r - q\<bar> \<le> 1 / 2" by (rule round_half_even_error)
  have "\<bar>(of_int k :: rat) - of_int ?r\<bar> \<le> 1" using assms(1) e by linarith
  then have "\<bar>k - ?r\<bar> \<le> 1" by (metis of_int_abs of_int_diff of_int_le_1_iff)
  then consider "k = ?r" | "k = ?r + 1" | "k = ?r - 1" by linarith
  then show ?thesis
  proof cases
    case 1
    then show ?thesis .
  next
    case 2
    with assms(1) e have "\<bar>of_int k - q\<bar> = 1 / 2" "\<bar>of_int ?r - q\<bar> = 1 / 2" by auto
    with assms(2) round_half_even_tie [of q] have "even k" "even ?r" by auto
    with 2 show ?thesis by simp
  next
    case 3
    with assms(1) e have "\<bar>of_int k - q\<bar> = 1 / 2" "\<bar>of_int ?r - q\<bar> = 1 / 2" by auto
    with assms(2) round_half_even_tie [of q] have "even k" "even ?r" by auto
    with 3 show ?thesis by simp
  qed
qed


lemma round_ndigits_scaled: "round_ndigits s n * 10 ^ n = of_int (round_half_even (s * 10 ^ n))"
  by (simp add: round_ndigits_def)

lemma round_ndigits_diff:
  "\<bar>round_ndigits s n - s\<bar> * (2 * 10 ^ n) = 2 * \<bar>of_int (round_half_even (s * 10 ^ n)) - s * 10 ^ n\<bar>"
proof -
  have "(round_ndigits s n - s) * 10 ^ n = of_int (round_half_even (s * 10 ^ n)) - s * 10 ^ n"
    by (simp add: algebra_simps round_ndigits_scaled)
  then have "\<bar>(round_ndigits s n - s) * 10 ^ n\<bar> = \<bar>of_int (round_half_even (s * 10 ^ n)) - s * 10 ^ n\<bar>"
    by (simp only:)
  then have "\<bar>round_ndigits s n - s\<bar> * 10 ^ n = \<bar>of_int (round_half_even (s * 10 ^ n)) - s * 10 ^ n\<bar>"
    by (simp add: abs_mult)
  then show ?thesis by simp
qed


lemma is_decimal_rounding_unique:
  assumes "is_decimal_rounding s n d"
  shows "d = round_ndigits s n"
proof -
  define k where "k = \<lfloor>d * 10 ^ n\<rfloor>"
  from assms have k: "of_int k = d * 10 ^ n" and le: "\<bar>d - s\<bar> * (2 * 10 ^ n) \<le> 1"
    and tie: "\<bar>d - s\<bar> * (2 * 10 ^ n) = 1 \<longrightarrow> even k"
    by (simp_all add: is_decimal_rounding_def k_def Let_def)
  have "(d - s) * 10 ^ n = of_int k - s * 10 ^ n" by (simp add: algebra_simps k)
  then have "\<bar>(d - s) * 10 ^ n\<bar> = \<bar>of_int k - s * 10 ^ n\<bar>"
    by (simp only:)
  then have "\<bar>d - s\<bar> * 10 ^ n = \<bar>of_int k - s * 10 ^ n\<bar>"
    by (simp add: abs_mult)
  then have eq: "\<bar>d - s\<bar> * (2 * 10 ^ n) = 2 * \<bar>of_int k - s * 10 ^ n\<bar>" by simp
  from le tie eq have "k = round_half_even (s * 10 ^ n)"
    by (intro round_half_even_unique) auto
  with k have "d * 10 ^ n = of_int (round_half_even (s * 10 ^ n))" by simp
  then show ?thesis by (simp add: round_ndigits_def field_simps)
qed

lemma round_ndigits_of_int: "round_ndigits (of_int k) n = of_int k"
proof -
  have "(of_int k :: rat) * 10 ^ n = of_int (k * 10 ^ n)" by simp
  then show ?thesis
    unfolding round_ndigits_def by (simp only: round_half_even_of_int) simp
qed


lemma round_half_even_ge: "of_int N \<le> q \<Longrightarrow> N \<le> round_half_even q"
  using round_half_even_mono [of "of_int N" q] by (simp add: round_half_even_of_int)

lemma round_half_even_le: "q \<le> of_int M \<Longrightarrow> round_half_even q \<le> M"
  using round_half_even_mono [of q "of_int M"] by (simp add: round_half_even_of_int)

lemma ilog2_bounds:
  assumes "0 < a"
  shows "2 powi ilog2 a \<le> a \<and> a < 2 powi (ilog2 a + 1)"
proof (cases "1 \<le> a")
  case True
  define n where "n = \<lfloor>a\<rfloor>"
  from True have n: "0 < n" unfolding n_def by linarith
  have an: "of_int n \<le> a" "a < of_int n + 1" unfolding n_def by linarith+
  from bitlen_bounds [OF n] have b: "2 ^ nat (bitlen n - 1) \<le> n" "n + 1 \<le> 2 ^ nat (bitlen n)"
    by auto
  from n have pos: "1 \<le> bitlen n" by (smt (verit) bitlen_eq_zero_iff bitlen_nonneg)
  have il: "ilog2 a = bitlen n - 1" using True by (simp add: ilog2_def n_def)
  have "(2::rat) powi (bitlen n - 1) = of_int (2 ^ nat (bitlen n - 1))"
    using pos by (simp add: power_int_nonneg_exp)
  also have "\<dots> \<le> of_int n" using b(1) by (simp only: of_int_le_iff)
  finally have lo: "2 powi (bitlen n - 1) \<le> a" using an(1) by linarith
  have "a < of_int (n + 1)" using an(2) by simp
  also have "\<dots> \<le> of_int (2 ^ nat (bitlen n))" using b(2) by (simp only: of_int_le_iff)
  also have "\<dots> = (2::rat) powi (bitlen n)"
    using pos by (simp add: power_int_nonneg_exp)
  finally have "a < 2 powi (bitlen n)" .
  with lo il show ?thesis by simp
next
  case False
  define b where "b = 1 / a"
  from False assms have b1: "1 < b" unfolding b_def by simp
  define n where "n = \<lceil>b\<rceil> - 1"
  from b1 have n: "0 < n" unfolding n_def by linarith
  have bn: "of_int n < b" "b \<le> of_int n + 1" unfolding n_def by linarith+
  from bitlen_bounds [OF n] have bb: "2 ^ nat (bitlen n - 1) \<le> n" "n + 1 \<le> 2 ^ nat (bitlen n)"
    by auto
  from n have pos: "1 \<le> bitlen n" by (smt (verit) bitlen_eq_zero_iff bitlen_nonneg)
  have il: "ilog2 a = - bitlen n" using False by (simp add: ilog2_def n_def b_def)
  have "b \<le> of_int (n + 1)" using bn(2) by simp
  also have "\<dots> \<le> of_int (2 ^ nat (bitlen n))" using bb(2) by (simp only: of_int_le_iff)
  finally have up: "b \<le> 2 ^ nat (bitlen n)" by simp
  have "(2::rat) ^ nat (bitlen n - 1) = of_int (2 ^ nat (bitlen n - 1))" by simp
  also have "\<dots> \<le> of_int n" using bb(1) by (simp only: of_int_le_iff)
  also have "\<dots> < b" by (rule bn(1))
  finally have low: "2 ^ nat (bitlen n - 1) < b" .
  have a: "a = 1 / b" by (simp add: b_def)
  have p1: "(2::rat) powi (- bitlen n) = 1 / 2 ^ nat (bitlen n)"
    using pos by (simp add: power_int_def inverse_eq_divide power_one_over)
  have p2: "(2::rat) powi (1 - bitlen n) = 1 / 2 ^ nat (bitlen n - 1)"
  proof -
    have "1 - bitlen n = - (bitlen n - 1)" by simp
    then have "(2::rat) powi (1 - bitlen n) = inverse (2 powi (bitlen n - 1))"
      by (simp only: power_int_minus)
    then show ?thesis using pos by (simp add: power_int_nonneg_exp inverse_eq_divide)
  qed
  from up b1 have "1 / 2 ^ nat (bitlen n) \<le> a"
    unfolding a by (simp add: field_simps)
  moreover from low b1 have "a < 1 / 2 ^ nat (bitlen n - 1)"
    unfolding a by (simp add: field_simps)
  ultimately show ?thesis by (simp add: il p1 p2)
qed

lemma ilog2_mono:
  assumes "0 < a" "a \<le> b"
  shows "ilog2 a \<le> ilog2 b"
proof (rule ccontr)
  assume "\<not> ilog2 a \<le> ilog2 b"
  then have "ilog2 b + 1 \<le> ilog2 a" by simp
  then have "(2::rat) powi (ilog2 b + 1) \<le> 2 powi ilog2 a"
    by (intro power_int_increasing) simp_all
  with ilog2_bounds [of a] ilog2_bounds [of b] assms show False by simp
qed

lemma ulp_pos: "0 < ulp a"
  by (simp add: ulp_def)

lemma nearest_double_error:
  "\<bar>nearest_double q - q\<bar> * 2 \<le> ulp \<bar>q\<bar>"
proof (cases "q = 0")
  case True
  then show ?thesis using ulp_pos [of 0] by (simp add: nearest_double_def)
next
  case False
  define u where "u = ulp \<bar>q\<bar>"
  define m where "m = round_half_even (\<bar>q\<bar> / u)"
  have u: "0 < u" unfolding u_def by (rule ulp_pos)
  have "nearest_double q - q = sgn q * (of_int m * u - \<bar>q\<bar>)"
    using False by (simp add: nearest_double_def m_def u_def algebra_simps sgn_mult_abs
        flip: abs_sgn mult.assoc) (metis mult.commute mult_sgn_abs)
  then have "\<bar>nearest_double q - q\<bar> = \<bar>of_int m * u - \<bar>q\<bar>\<bar>"
    using False by (simp add: abs_mult abs_sgn_eq)
  also have "of_int m * u - \<bar>q\<bar> = (of_int m - \<bar>q\<bar> / u) * u"
    using u by (simp add: algebra_simps)
  also have "\<bar>\<dots>\<bar> = \<bar>of_int m - \<bar>q\<bar> / u\<bar> * u"
    using u by (simp add: abs_mult)
  finally have "\<bar>nearest_double q - q\<bar> * 2 = (\<bar>of_int m - \<bar>q\<bar> / u\<bar> * 2) * u" by simp
  also have "\<dots> \<le> 1 * u"
    using round_half_even_error [of "\<bar>q\<bar> / u"] u
    by (intro mult_right_mono) (simp_all add: m_def)
  finally show ?thesis by (simp add: u_def)
qed

lemma nearest_double_minus: "nearest_double (- q) = - nearest_double q"
  by (simp add: nearest_double_def sgn_minus)

lemma nearest_double_of_double: "is_double q \<Longrightarrow> nearest_double q = q"
proof (cases "q = 0")
  case True
  then show ?thesis by (simp add: nearest_double_def)
next
  case False
  assume "is_double q"
  with False have "of_int \<lfloor>\<bar>q\<bar> / ulp \<bar>q\<bar>\<rfloor> = \<bar>q\<bar> / ulp \<bar>q\<bar>"
    by (simp add: is_double_def)
  then have "of_int (round_half_even (\<bar>q\<bar> / ulp \<bar>q\<bar>)) = \<bar>q\<bar> / ulp \<bar>q\<bar>"
    by (metis round_half_even_of_int)
  with False ulp_pos [of "\<bar>q\<bar>"] show ?thesis
    by (simp add: nearest_double_def mult_sgn_abs)
qed


lemma nearest_double_pos_eq:
  "0 < a \<Longrightarrow> nearest_double a = of_int (round_half_even (a / ulp a)) * ulp a"
  by (simp add: nearest_double_def)

lemma nearest_double_nonneg:
  assumes "0 \<le> q"
  shows "0 \<le> nearest_double q"
proof (cases "q = 0")
  case True
  then show ?thesis by (simp add: nearest_double_def)
next
  case False
  with assms have q: "0 < q" by simp
  then have "of_int 0 \<le> q / ulp q" using ulp_pos [of q] by simp
  then have "0 \<le> round_half_even (q / ulp q)" by (rule round_half_even_ge)
  with q ulp_pos [of q] show ?thesis by (simp add: nearest_double_pos_eq)
qed

lemma ulp_times:
  "ulp a * 2 ^ 52 = 2 powi (max (ilog2 a) (- 1022))"
  "ulp a * 2 ^ 53 = 2 powi (max (ilog2 a) (- 1022) + 1)"
proof -
  have "(2::rat) powi (max (ilog2 a) (- 1022) - 52) * 2 powi 52 = 2 powi (max (ilog2 a) (- 1022))"
    by (subst power_int_add [symmetric]) simp_all
  then show "ulp a * 2 ^ 52 = 2 powi (max (ilog2 a) (- 1022))" by (simp add: ulp_def)
  have "(2::rat) powi (max (ilog2 a) (- 1022) - 52) * 2 powi 53 = 2 powi (max (ilog2 a) (- 1022) + 1)"
    by (subst power_int_add [symmetric]) (simp_all add: add.commute)
  then show "ulp a * 2 ^ 53 = 2 powi (max (ilog2 a) (- 1022) + 1)" by (simp add: ulp_def)
qed

lemma nearest_double_upper:
  assumes "0 < a"
  shows "nearest_double a \<le> 2 powi (max (ilog2 a) (- 1022) + 1)"
proof -
  have "a < 2 powi (ilog2 a + 1)" using ilog2_bounds [OF assms] by simp
  also have "\<dots> \<le> 2 powi (max (ilog2 a) (- 1022) + 1)"
    by (intro power_int_increasing) simp_all
  also have "\<dots> = ulp a * 2 ^ 53" by (simp only: ulp_times)
  finally have "a / ulp a \<le> of_int (2 ^ 53)"
    using ulp_pos [of a] by (simp add: field_simps)
  then have "round_half_even (a / ulp a) \<le> 2 ^ 53" by (rule round_half_even_le)
  then have "(of_int (round_half_even (a / ulp a)) :: rat) \<le> of_int (2 ^ 53)"
    by (simp only: of_int_le_iff)
  then have "of_int (round_half_even (a / ulp a)) * ulp a \<le> of_int (2 ^ 53) * ulp a"
    using ulp_pos [of a] by (intro mult_right_mono) simp_all
  then show ?thesis
    using assms ulp_times(2) [of a] by (simp add: nearest_double_pos_eq mult.commute)
qed

lemma nearest_double_lower:
  assumes "0 < a" and "- 1022 \<le> ilog2 a"
  shows "2 powi ilog2 a \<le> nearest_double a"
proof -
  from assms(2) have m: "max (ilog2 a) (- 1022) = ilog2 a" by simp
  have "ulp a * 2 ^ 52 \<le> a" using ilog2_bounds [OF assms(1)] by (simp only: ulp_times m)
  then have "of_int (2 ^ 52) \<le> a / ulp a"
    using ulp_pos [of a] by (simp add: field_simps)
  then have "2 ^ 52 \<le> round_half_even (a / ulp a)" by (rule round_half_even_ge)
  then have "(of_int (2 ^ 52) :: rat) \<le> of_int (round_half_even (a / ulp a))"
    by (simp only: of_int_le_iff)
  then have "of_int (2 ^ 52) * ulp a \<le> of_int (round_half_even (a / ulp a)) * ulp a"
    using ulp_pos [of a] by (intro mult_right_mono) simp_all
  then show ?thesis
    using assms(1) ulp_times(1) [of a] by (simp add: nearest_double_pos_eq mult.commute m)
qed

lemma nearest_double_mono_pos:
  assumes "0 < x" and "x \<le> y"
  shows "nearest_double x \<le> nearest_double y"
proof -
  from assms have y: "0 < y" by simp
  let ?ex = "max (ilog2 x) (- 1022)" and ?ey = "max (ilog2 y) (- 1022)"
  from ilog2_mono [OF assms] have le: "?ex \<le> ?ey" by simp
  show ?thesis
  proof (cases "?ex = ?ey")
    case True
    then have u: "ulp x = ulp y" by (simp add: ulp_def)
    from assms(2) have "x / ulp y \<le> y / ulp y"
      using ulp_pos [of y] by (simp add: divide_right_mono)
    then have "round_half_even (x / ulp y) \<le> round_half_even (y / ulp y)"
      by (rule round_half_even_mono)
    then have "(of_int (round_half_even (x / ulp y)) :: rat) \<le> of_int (round_half_even (y / ulp y))"
      by (simp only: of_int_le_iff)
    then have "of_int (round_half_even (x / ulp y)) * ulp y
        \<le> of_int (round_half_even (y / ulp y)) * ulp y"
      using ulp_pos [of y] by (intro mult_right_mono) simp_all
    with assms(1) y u show ?thesis by (simp add: nearest_double_pos_eq)
  next
    case False
    with le have lt: "?ex + 1 \<le> ?ey" by simp
    then have iy: "?ey = ilog2 y" "- 1022 \<le> ilog2 y" by simp_all
    have "nearest_double x \<le> 2 powi (?ex + 1)" by (rule nearest_double_upper [OF assms(1)])
    also have "\<dots> \<le> 2 powi ilog2 y"
      using lt iy(1) by (intro power_int_increasing) simp_all
    also have "\<dots> \<le> nearest_double y" by (rule nearest_double_lower [OF y iy(2)])
    finally show ?thesis .
  qed
qed

lemma nearest_double_mono:
  assumes "x \<le> y"
  shows "nearest_double x \<le> nearest_double y"
proof -
  consider "0 < x" | "x \<le> 0" "0 \<le> y" | "y < 0" by linarith
  then show ?thesis
  proof cases
    case 1
    from 1 assms show ?thesis by (rule nearest_double_mono_pos)
  next
    case 2
    from 2(1) have "0 \<le> nearest_double (- x)" by (intro nearest_double_nonneg) simp
    then have "nearest_double x \<le> 0" by (simp add: nearest_double_minus)
    also from 2(2) have "0 \<le> nearest_double y" by (rule nearest_double_nonneg)
    finally show ?thesis .
  next
    case 3
    with assms have "0 < - y" "- y \<le> - x" by simp_all
    then have "nearest_double (- y) \<le> nearest_double (- x)" by (rule nearest_double_mono_pos)
    then show ?thesis by (simp add: nearest_double_minus)
  qed
qed


lemma round_ndigits_error: "\<bar>round_ndigits s n - s\<bar> \<le> 1 / (2 * 10 ^ n)"
proof -
  have "\<bar>round_ndigits s n - s\<bar> * (2 * 10 ^ n) \<le> 1"
    using round_half_even_error [of "s * 10 ^ n"] by (simp add: round_ndigits_diff)
  then show ?thesis by (simp add: field_simps)
qed

lemma is_double_2_54: "is_double (2 ^ 54)"
  by code_simp

lemma large_double_is_int:
  assumes "is_double s" and "2 ^ 53 \<le> \<bar>s\<bar>"
  shows "\<exists>j. s = of_int j"
proof -
  define a where "a = \<bar>s\<bar>"
  from assms(2) have a: "0 < a" "2 ^ 53 \<le> a" by (simp_all add: a_def)
  have "53 \<le> ilog2 a"
  proof (rule ccontr)
    assume "\<not> 53 \<le> ilog2 a"
    then have "ilog2 a + 1 \<le> 53" by simp
    then have "(2::rat) powi (ilog2 a + 1) \<le> 2 powi 53"
      by (intro power_int_increasing) simp_all
    with ilog2_bounds [OF a(1)] a(2) show False by simp
  qed
  then have u: "ulp a = of_int (2 ^ nat (ilog2 a - 52))"
    by (simp add: ulp_def power_int_nonneg_exp)
  define m where "m = \<lfloor>a / ulp a\<rfloor>"
  from assms a have eq: "of_int m = a / ulp a"
    unfolding m_def by (auto simp: is_double_def a_def)
  have "ulp a \<noteq> 0" using ulp_pos [of a] by simp
  with eq have "a = of_int m * ulp a" by (simp add: field_simps)
  then have "a = of_int (m * 2 ^ nat (ilog2 a - 52))"
    by (simp add: u)
  then obtain k :: int where "a = of_int k" ..
  then have "s = of_int k \<or> s = of_int (- k)" unfolding a_def by (simp add: abs_if split: if_splits)
  then show ?thesis by blast
qed

lemma double_round_no_overflow:
  assumes "is_double s"
  shows "\<bar>nearest_double (round_ndigits s n)\<bar> < 2 ^ 1024"
proof (cases "\<bar>s\<bar> < 2 ^ 53")
  case True
  have "(1::rat) \<le> 10 ^ n" by simp
  then have "(1::rat) \<le> 2 * 10 ^ n" by linarith
  then have "1 / (2 * 10 ^ n) \<le> (1::rat)" by (simp add: field_simps)
  with round_ndigits_error [of s n] have "\<bar>round_ndigits s n - s\<bar> \<le> 1" by linarith
  with True have r: "- (2 ^ 54) \<le> round_ndigits s n" "round_ndigits s n \<le> 2 ^ 54" by simp_all
  from nearest_double_mono [OF r(2)] have "nearest_double (round_ndigits s n) \<le> 2 ^ 54"
    by (simp only: nearest_double_of_double [OF is_double_2_54])
  moreover from nearest_double_mono [OF r(1)] have "- (2 ^ 54) \<le> nearest_double (round_ndigits s n)"
    by (simp only: nearest_double_minus nearest_double_of_double [OF is_double_2_54])
  ultimately show ?thesis by simp
next
  case False
  then have "2 ^ 53 \<le> \<bar>s\<bar>" by simp
  from large_double_is_int [OF assms this] obtain j where j: "s = of_int j" ..
  then have "round_ndigits s n = s" by (simp add: round_ndigits_of_int)
  then have "nearest_double (round_ndigits s n) = s"
    by (simp add: nearest_double_of_double [OF assms])
  moreover from assms False have "\<bar>s\<bar> < 2 ^ 1024" by (auto simp: is_double_def)
  ultimately show ?thesis by simp
qed




lemma is_double_minus: "is_double (- q) = is_double q"
  by (simp add: is_double_def)



text \<open>
  No binary64 value is nearer to \<open>x\<close> than \<open>nearest_double x\<close>.
\<close>

lemma round_half_even_nearest: "\<bar>of_int (round_half_even t) - t\<bar> \<le> \<bar>of_int k - t\<bar>"
proof (cases "k = round_half_even t")
  case True
  then show ?thesis by simp
next
  case False
  then have "1 \<le> \<bar>k - round_half_even t\<bar>" by simp
  then have "(1::rat) \<le> \<bar>of_int k - of_int (round_half_even t)\<bar>"
    by (metis of_int_1_le_iff of_int_abs of_int_diff)
  with round_half_even_error [of t] show ?thesis by linarith
qed

lemma nearest_double_le_multiple:
  assumes "0 < x"
  shows "\<bar>nearest_double x - x\<bar> \<le> \<bar>of_int k * ulp x - x\<bar>"
proof -
  have u: "0 < ulp x" by (rule ulp_pos)
  have "\<bar>nearest_double x - x\<bar> = \<bar>(of_int (round_half_even (x / ulp x)) - x / ulp x) * ulp x\<bar>"
    using assms u by (simp add: nearest_double_pos_eq algebra_simps)
  also have "\<dots> = \<bar>of_int (round_half_even (x / ulp x)) - x / ulp x\<bar> * ulp x"
    using u by (simp add: abs_mult)
  also have "\<dots> \<le> \<bar>of_int k - x / ulp x\<bar> * ulp x"
    using u round_half_even_nearest [of "x / ulp x" k] by (intro mult_right_mono) simp_all
  also have "\<dots> = \<bar>(of_int k - x / ulp x) * ulp x\<bar>"
    using u by (simp add: abs_mult)
  also have "(of_int k - x / ulp x) * ulp x = of_int k * ulp x - x"
    using u by (simp add: algebra_simps)
  finally show ?thesis .
qed

lemma double_is_multiple:
  assumes "is_double w" and "w \<noteq> 0"
    and "max (ilog2 x) (- 1022) \<le> max (ilog2 \<bar>w\<bar>) (- 1022)"
  shows "\<exists>k. w = of_int k * ulp x"
proof -
  define E where "E = max (ilog2 \<bar>w\<bar>) (- 1022)"
  define e where "e = max (ilog2 x) (- 1022)"
  define kw where "kw = \<lfloor>\<bar>w\<bar> / ulp \<bar>w\<bar>\<rfloor>"
  from assms(1,2) have "of_int kw = \<bar>w\<bar> / ulp \<bar>w\<bar>" unfolding kw_def by (auto simp: is_double_def)
  then have w: "\<bar>w\<bar> = of_int kw * ulp \<bar>w\<bar>" using ulp_pos [of "\<bar>w\<bar>"] by (simp add: field_simps)
  from assms(3) have le: "e \<le> E" by (simp add: e_def E_def)
  have "ulp \<bar>w\<bar> = 2 powi (E - e + (e - 52))" by (simp add: ulp_def E_def)
  also have "\<dots> = 2 powi (E - e) * 2 powi (e - 52)" by (subst power_int_add) simp_all
  also have "\<dots> = of_int (2 ^ nat (E - e)) * ulp x"
    using le by (simp add: power_int_nonneg_exp ulp_def e_def)
  finally have "\<bar>w\<bar> = of_int (kw * 2 ^ nat (E - e)) * ulp x" using w by simp
  then have "w = of_int (kw * 2 ^ nat (E - e)) * ulp x \<or> w = of_int (- (kw * 2 ^ nat (E - e))) * ulp x"
    by (simp add: abs_if split: if_splits)
  then show ?thesis by blast
qed

lemma double_below:
  assumes "is_double w" and "w \<noteq> 0"
    and "max (ilog2 \<bar>w\<bar>) (- 1022) < e"
  shows "\<bar>w\<bar> * 2 \<le> 2 powi e * 2 - 2 powi (e - 52)"
proof -
  define E where "E = max (ilog2 \<bar>w\<bar>) (- 1022)"
  define kw where "kw = \<lfloor>\<bar>w\<bar> / ulp \<bar>w\<bar>\<rfloor>"
  have wpos: "0 < \<bar>w\<bar>" using assms(2) by simp
  have u: "ulp \<bar>w\<bar> = 2 powi (E - 52)" by (simp add: ulp_def E_def)
  from assms(1,2) have "of_int kw = \<bar>w\<bar> / ulp \<bar>w\<bar>" unfolding kw_def by (auto simp: is_double_def)
  then have w: "\<bar>w\<bar> = of_int kw * ulp \<bar>w\<bar>" using ulp_pos [of "\<bar>w\<bar>"] by (simp add: field_simps)
  have "\<bar>w\<bar> < 2 powi (ilog2 \<bar>w\<bar> + 1)" using ilog2_bounds [OF wpos] by simp
  also have "\<dots> \<le> 2 powi (E + 1)" unfolding E_def by (intro power_int_increasing) simp_all
  also have "\<dots> = ulp \<bar>w\<bar> * 2 ^ 53" unfolding E_def by (simp only: ulp_times)
  finally have "of_int kw * ulp \<bar>w\<bar> < of_int (2 ^ 53) * ulp \<bar>w\<bar>" using w by (simp add: mult.commute)
  then have "(of_int kw :: rat) < of_int (2 ^ 53)" using ulp_pos [of "\<bar>w\<bar>"] by simp
  then have "kw < 2 ^ 53" by (simp only: of_int_less_iff)
  then have "kw \<le> 2 ^ 53 - 1" by simp
  then have "(of_int kw :: rat) \<le> of_int (2 ^ 53 - 1)" by (simp only: of_int_le_iff)
  then have "of_int kw * ulp \<bar>w\<bar> \<le> of_int (2 ^ 53 - 1) * ulp \<bar>w\<bar>"
    using ulp_pos [of "\<bar>w\<bar>"] by (intro mult_right_mono) simp_all
  then have 1: "\<bar>w\<bar> \<le> of_int (2 ^ 53 - 1) * 2 powi (E - 52)" using w u by simp
  from assms(3) have "E - 52 \<le> e - 53" unfolding E_def by linarith
  then have "(2::rat) powi (E - 52) \<le> 2 powi (e - 53)" by (intro power_int_increasing) simp_all
  then have "of_int (2 ^ 53 - 1) * (2::rat) powi (E - 52) \<le> of_int (2 ^ 53 - 1) * 2 powi (e - 53)"
    by (intro mult_left_mono) simp_all
  with 1 have 2: "\<bar>w\<bar> \<le> of_int (2 ^ 53 - 1) * 2 powi (e - 53)" by linarith
  have p: "(2::rat) powi e = 2 powi (e - 53) * 2 powi 53" "(2::rat) powi (e - 52) = 2 powi (e - 53) * 2 powi 1"
    by (subst power_int_add [symmetric]; simp)+
  from 2 show ?thesis unfolding p by (simp add: algebra_simps)
qed

lemma nearest_double_nearest_pos:
  assumes "0 < x" and "is_double w"
  shows "\<bar>nearest_double x - x\<bar> \<le> \<bar>w - x\<bar>"
proof (cases "w = 0")
  case True
  from nearest_double_le_multiple [OF assms(1), of 0] True show ?thesis by simp
next
  case False
  define e where "e = max (ilog2 x) (- 1022)"
  show ?thesis
  proof (cases "e \<le> max (ilog2 \<bar>w\<bar>) (- 1022)")
    case True
    from double_is_multiple [OF assms(2) False, of x] True obtain k where "w = of_int k * ulp x"
      by (auto simp: e_def)
    with nearest_double_le_multiple [OF assms(1), of k] show ?thesis by simp
  next
    case False
    then have lt: "max (ilog2 \<bar>w\<bar>) (- 1022) < e" by linarith
    then have "- 1022 < e" by simp
    then have ex: "e = ilog2 x" by (simp add: e_def)
    from ilog2_bounds [OF assms(1)] have x: "2 powi e \<le> x" by (simp add: ex)
    from double_below [OF assms(2) \<open>w \<noteq> 0\<close> lt] have "\<bar>w\<bar> * 2 \<le> 2 powi e * 2 - 2 powi (e - 52)" .
    moreover have "ulp x = 2 powi (e - 52)" by (simp add: ulp_def e_def)
    moreover note nearest_double_error [of x] x
    ultimately show ?thesis using assms(1) by (simp add: abs_if split: if_splits)
  qed
qed

lemma nearest_double_nearest:
  assumes "is_double w"
  shows "\<bar>nearest_double x - x\<bar> \<le> \<bar>w - x\<bar>"
proof -
  consider "x = 0" | "0 < x" | "x < 0" by linarith
  then show ?thesis
  proof cases
    case 1
    then show ?thesis by (simp add: nearest_double_def)
  next
    case 2
    from this assms show ?thesis by (rule nearest_double_nearest_pos)
  next
    case 3
    then have "0 < - x" by simp
    moreover from assms have "is_double (- w)" by (simp add: is_double_minus)
    ultimately have "\<bar>nearest_double (- x) - (- x)\<bar> \<le> \<bar>- w - (- x)\<bar>"
      by (rule nearest_double_nearest_pos)
    then show ?thesis by (simp add: nearest_double_minus abs_minus_commute)
  qed
qed

subsection \<open>Rounding a float\<close>

declare float_round.simps(1) [simp del]





lemma float_round_finite:
  assumes "is_double s"
  shows "float_round (Fin s) n =
           Inr (if nearest_double (round_ndigits s n) = 0 \<and> s < 0 then NegZero
                else Fin (nearest_double (round_ndigits s n)))"
  using double_round_no_overflow [OF assms, of n] by (simp add: float_round.simps(1) Let_def)






lemma float_round_nearest:
  assumes "is_double s" and "float_round (Fin s) n = Inr r" and "is_double w"
  shows "\<bar>float_value r - round_ndigits s n\<bar> \<le> \<bar>w - round_ndigits s n\<bar>"
proof -
  from assms(1,2) have "float_value r = nearest_double (round_ndigits s n)"
    by (auto simp: float_round_finite split: if_splits)
  with nearest_double_nearest [OF assms(3)] show ?thesis by simp
qed


lemma float_round_stub:
  "float_round (Fin (57447 / 65536)) 4 = Inr (Fin (3947855433352977 / 4503599627370496))"
  "float_round (Fin (3 / 32)) 4 = Inr (Fin (844875290094705 / 9007199254740992))"
  "float_round (Fin (1 / 32)) 4 = Inr (Fin (4496393867966703 / 144115188075855872))"
  "float_round (Fin (1 / 2)) 4 = Inr (Fin (1 / 2))"
  by code_simp+

section \<open>The matcher on a healthy service\<close>












section \<open>Initialisation\<close>

lemma module_init_cases:
  "module_init env = \<lparr>pc = None, index = None, embedding_model = None\<rparr>
   \<or> (\<exists>i. module_init env = \<lparr>pc = None, index = Some i, embedding_model = None\<rparr>)
   \<or> (\<exists>p i m. module_init env = \<lparr>pc = Some p, index = Some i, embedding_model = Some m\<rparr>)"
  by (simp add: module_init_def init_try_def Let_def split: option.splits sum.splits)

lemma module_init_index_unbound:
  "index (module_init env) = None \<Longrightarrow> pc (module_init env) = None"
  using module_init_cases [of env] by auto

text \<open>
  C3 as stated fails: when the key is present, the client and the index open, and loading
  the model raises, the handler of the exception resets \<open>pc\<close> and \<open>embedding_model\<close> and
  leaves \<open>index\<close> bound. The state is then neither all set nor all unset.
\<close>

theorem module_init_partial_counterexample:
  "\<not> ((pc (module_init env_model_fails) \<noteq> None
        \<and> index (module_init env_model_fails) \<noteq> None
        \<and> embedding_model (module_init env_model_fails) \<noteq> None)
      \<or> (pc (module_init env_model_fails) = None
        \<and> index (module_init env_model_fails) = None
        \<and> embedding_model (module_init env_model_fails) = None))"
  by (simp add: module_init_def init_try_def env_model_fails_def env_ok_def stub_pinecone_def)

text \<open>
  C3, amended. After initialisation the database client and the embedding model are both
  set or both unset, and whenever they are set the index handle is set as well. (The
  index handle is not reset on failure: it can stay set while the other two are unset.)
\<close>

theorem module_init_handles:
  "(pc (module_init env) = None \<longleftrightarrow> embedding_model (module_init env) = None)
   \<and> (pc (module_init env) \<noteq> None \<longrightarrow> index (module_init env) \<noteq> None)"
  using module_init_cases [of env] by auto

theorem module_init_handles_witness:
  "pc (module_init env_ok) \<noteq> None \<and> embedding_model (module_init env_ok) \<noteq> None
   \<and> index (module_init env_ok) \<noteq> None"
proof -
  have h: "pc (module_init env_ok) \<noteq> None"
    by (simp add: module_init_def init_try_def env_ok_def stub_pinecone_def)
  with module_init_handles [of env_ok] show ?thesis by simp
qed

section \<open>Degraded service\<close>

lemma find_matching_parts_guard:
  "embedding_model st = None \<or> pc st = None \<Longrightarrow>
   find_matching_parts st d k = (Inr (''Service not initialized.'', []), [])"
  by (auto simp: find_matching_parts_def split: option.splits)

text \<open>
  C9. In every state initialisation can produce, if any of the three handles is unset
  then \<open>find_matching_parts\<close> returns the status \<open>Service not initialized.\<close> with an empty
  result sequence, for every description and \<open>top_k\<close>, and calls neither the embedding
  model nor the index.
\<close>

theorem find_matching_parts_degraded:
  assumes "st = module_init env"
    and "pc st = None \<or> index st = None \<or> embedding_model st = None"
  shows "find_matching_parts st d k = (Inr (''Service not initialized.'', []), [])"
proof -
  from assms have "embedding_model st = None \<or> pc st = None"
    using module_init_index_unbound [of env] by auto
  then show ?thesis by (rule find_matching_parts_guard)
qed

theorem find_matching_parts_degraded_witness:
  "index (module_init env_model_fails) \<noteq> None
   \<and> embedding_model (module_init env_model_fails) = None
   \<and> find_matching_parts (module_init env_model_fails) (PStr ''blower'') (PInt 3) =
       (Inr (''Service not initialized.'', []), [])"
proof -
  have h: "embedding_model (module_init env_model_fails) = None"
    and i: "index (module_init env_model_fails) \<noteq> None"
    by (simp_all add: module_init_def init_try_def env_model_fails_def env_ok_def stub_pinecone_def)
  from h have "pc (module_init env_model_fails) = None
      \<or> index (module_init env_model_fails) = None
      \<or> embedding_model (module_init env_model_fails) = None" by simp
  from find_matching_parts_degraded [OF refl this] h i show ?thesis by simp
qed

text \<open>
  C5. While the service is degraded (the embedding model or the client is unset), every
  request is answered with status 500 and the fixed initialisation-failure body. The
  answer does not depend on the request, and no external call is made.
\<close>

theorem handler_degraded:
  "embedding_model st = None \<or> pc st = None \<Longrightarrow>
   query_part_finder st request =
     (Inr (jsonify (PDict [(''error'',
             PStr ''Service initialization failed. Check server logs.'')]), 500), [])"
  by (simp add: query_part_finder_def)

theorem handler_degraded_witness:
  "query_part_finder degraded_state (Request (PDict [(''description'', PStr ''blower'')])) =
     (Inr (jsonify (PDict [(''error'',
             PStr ''Service initialization failed. Check server logs.'')]), 500), [])"
proof -
  have "embedding_model degraded_state = None \<or> pc degraded_state = None"
    by (simp add: degraded_state_def)
  then show ?thesis by (rule handler_degraded)
qed

section \<open>Handler on well-formed requests\<close>

lemma handler_well_formed:
  assumes "embedding_model st \<noteq> None" and "pc st \<noteq> None"
    and "get_json_silent request = PDict kvs"
    and "map_of kvs ''description'' = Some d"
  shows "query_part_finder st request =
     (case find_matching_parts st d (case map_of kvs ''top_k'' of None \<Rightarrow> PInt 3 | Some k \<Rightarrow> k) of
        (Inr (status, matches), evs) \<Rightarrow>
          (Inr (jsonify (PDict [(''query_description'', d), (''status'', PStr status),
                                (''matches'', PList matches)]), 200), evs)
      | (Inl e, evs) \<Rightarrow>
          (Inr (jsonify (PDict [(''error'',
                  PStr (''An unexpected search error occurred: '' @ str_exn e))]), 500), evs))"
proof -
  from assms(4) have "kvs \<noteq> []" by auto
  moreover from assms(4) have "''description'' \<in> fst ` set kvs"
    by (metis domI dom_map_of_conv_image_fst)
  ultimately show ?thesis using assms
    by (auto simp: query_part_finder_def)
qed

lemma find_matching_parts_status:
  assumes "embedding_model st \<noteq> None" and "pc st \<noteq> None"
    and "find_matching_parts st d k = (Inr (status, matches), evs)"
  shows "status = ''Success''"
  using assms
  by (auto simp: find_matching_parts_def Let_def split: option.splits sum.splits list.splits)

text \<open>
  C7. For a healthy service and a request whose body is an object with a \<open>description\<close>:
  if the matcher raises \<open>e\<close>, the handler answers 500 with the body
  \<open>{"error": "An unexpected search error occurred: " + str(e)}\<close>; and the handler answers
  500 exactly when the matcher raised.
\<close>

theorem handler_matcher_error:
  assumes "embedding_model st \<noteq> None" and "pc st \<noteq> None"
    and "get_json_silent request = PDict kvs"
    and "map_of kvs ''description'' = Some d"
    and "top_k = (case map_of kvs ''top_k'' of None \<Rightarrow> PInt 3 | Some k \<Rightarrow> k)"
  shows "(\<forall>e. fst (find_matching_parts st d top_k) = Inl e \<longrightarrow>
            fst (query_part_finder st request) =
              Inr (jsonify (PDict [(''error'',
                     PStr (''An unexpected search error occurred: '' @ str_exn e))]), 500))
         \<and> ((\<exists>r. fst (query_part_finder st request) = Inr (r, 500))
              \<longleftrightarrow> (\<exists>e. fst (find_matching_parts st d top_k) = Inl e))"
  unfolding handler_well_formed [OF assms(1-4)] assms(5)
  by (auto split: prod.splits sum.splits)


theorem handler_matcher_error_witness:
  "fst (find_matching_parts failing_state (PStr ''blower'') (PInt 3)) =
     Inl (Exn ''PineconeException'' ''index unavailable'')
   \<and> fst (query_part_finder failing_state
             (Request (PDict [(''description'', PStr ''blower'')]))) =
       Inr (jsonify (PDict [(''error'',
              PStr ''An unexpected search error occurred: index unavailable'')]), 500)"
proof -
  have h1: "embedding_model failing_state \<noteq> None" and h2: "pc failing_state \<noteq> None"
    by (simp_all add: failing_state_def)
  have h3: "get_json_silent (Request (PDict [(''description'', PStr ''blower'')])) =
              PDict [(''description'', PStr ''blower'')]"
    by simp
  have h4: "map_of [(''description'', PStr ''blower'')] ''description'' = Some (PStr ''blower'')"
    by simp
  have h5: "PInt 3 = (case map_of [(''description'', PStr ''blower'')] ''top_k'' of
                        None \<Rightarrow> PInt 3 | Some k \<Rightarrow> k)"
    by simp
  have raised: "fst (find_matching_parts failing_state (PStr ''blower'') (PInt 3)) =
                  Inl (Exn ''PineconeException'' ''index unavailable'')"
    by (simp add: find_matching_parts_def failing_state_def stub_model_def failing_index_def)
  from handler_matcher_error [OF h1 h2 h3 h4 h5] raised show ?thesis by simp
qed

section \<open>top_k\<close>

lemma find_matching_parts_query:
  assumes "embedding_model st = Some m" and "pc st \<noteq> None" and "index st = Some ix"
    and "encode_tolist m d = Inr (v # vs)"
  shows "find_matching_parts st d k =
           (case query ix v k of
              Inl e \<Rightarrow> (Inl e, [EncodeCall d, QueryCall v k])
            | Inr query_results \<Rightarrow>
                (case build_matches query_results of
                   Inl e \<Rightarrow> (Inl e, [EncodeCall d, QueryCall v k])
                 | Inr matches \<Rightarrow> (Inr (''Success'', matches), [EncodeCall d, QueryCall v k])))"
  using assms
  by (auto simp: find_matching_parts_def Let_def split: sum.splits)

text \<open>
  C8. For a healthy service, whatever index handle it holds, and a request whose body is
  an object with a \<open>description\<close>: the answer of the handler is computed from the answer
  of that index to the query with the embedding vector and with \<open>top_k\<close> the value the
  body carries under \<open>top_k\<close>, whatever it is (zero and negative integers included), and 3
  only when the key is absent. No other query is made, and the value is not checked or
  changed on the way.
\<close>

theorem handler_top_k:
  assumes "embedding_model st = Some m" and "pc st \<noteq> None" and "index st = Some ix"
    and "get_json_silent request = PDict kvs"
    and "map_of kvs ''description'' = Some d"
    and "encode_tolist m d = Inr (v # vs)"
    and "top_k = (case map_of kvs ''top_k'' of None \<Rightarrow> PInt 3 | Some k \<Rightarrow> k)"
  shows "query_part_finder st request =
           (case query ix v top_k of
              Inl e \<Rightarrow>
                (Inr (jsonify (PDict [(''error'',
                        PStr (''An unexpected search error occurred: '' @ str_exn e))]), 500),
                 [EncodeCall d, QueryCall v top_k])
            | Inr query_results \<Rightarrow>
                (case build_matches query_results of
                   Inl e \<Rightarrow>
                     (Inr (jsonify (PDict [(''error'',
                             PStr (''An unexpected search error occurred: '' @ str_exn e))]), 500),
                      [EncodeCall d, QueryCall v top_k])
                 | Inr matches \<Rightarrow>
                     (Inr (jsonify (PDict [(''query_description'', d),
                                           (''status'', PStr ''Success''),
                                           (''matches'', PList matches)]), 200),
                      [EncodeCall d, QueryCall v top_k])))"
proof -
  from assms(1) have "embedding_model st \<noteq> None" by simp
  from handler_well_formed [OF this assms(2,4,5)]
  show ?thesis
    unfolding assms(7) [symmetric] find_matching_parts_query [OF assms(1,2,3,6)]
    by (simp split: sum.splits)
qed

theorem handler_top_k_witness:
  "query_part_finder echo_state (Request (PDict [(''description'', PStr ''x'')])) =
     (Inr (echo_response (PInt 3), 200),
      [EncodeCall (PStr ''x''), QueryCall stub_vector (PInt 3)])
   \<and> query_part_finder echo_state
         (Request (PDict [(''description'', PStr ''x''), (''top_k'', PInt 0)])) =
       (Inr (echo_response (PInt 0), 200),
        [EncodeCall (PStr ''x''), QueryCall stub_vector (PInt 0)])
   \<and> query_part_finder echo_state
         (Request (PDict [(''description'', PStr ''x''), (''top_k'', PInt (- 5))])) =
       (Inr (echo_response (PInt (- 5)), 200),
        [EncodeCall (PStr ''x''), QueryCall stub_vector (PInt (- 5))])"
proof -
  have h1: "embedding_model echo_state = Some stub_model"
    and h2: "pc echo_state \<noteq> None"
    and h3: "index echo_state = Some echo_index"
    by (simp_all add: echo_state_def)
  have h6: "encode_tolist stub_model (PStr ''x'') = Inr (stub_vector # [])"
    by (simp add: stub_model_def)
  have a: "map_of [(''description'', PStr ''x'')] ''description'' = Some (PStr ''x'')"
    and b: "map_of [(''description'', PStr ''x''), (''top_k'', PInt 0)] ''description'' =
              Some (PStr ''x'')"
    and c: "map_of [(''description'', PStr ''x''), (''top_k'', PInt (- 5))] ''description'' =
              Some (PStr ''x'')"
    by simp_all
  have a': "PInt 3 = (case map_of [(''description'', PStr ''x'')] ''top_k'' of
                        None \<Rightarrow> PInt 3 | Some k \<Rightarrow> k)"
    and b': "PInt 0 = (case map_of [(''description'', PStr ''x''), (''top_k'', PInt 0)] ''top_k'' of
                        None \<Rightarrow> PInt 3 | Some k \<Rightarrow> k)"
    and c': "PInt (- 5) =
               (case map_of [(''description'', PStr ''x''), (''top_k'', PInt (- 5))] ''top_k'' of
                  None \<Rightarrow> PInt 3 | Some k \<Rightarrow> k)"
    by simp_all
  have echo: "build_matches (PDict [(''matches'', PList
                [PDict [(''id'', k), (''score'', PFloat (Fin (1 / 2))),
                        (''metadata'', PDict [(''description'', PStr ''echo'')])]])]) =
              Inr [PDict [(''part_number'', k), (''description'', PStr ''echo''),
                          (''score'', PFloat (Fin (1 / 2)))]]" for k
    by (simp add: build_matches_def match_entry_def float_round_stub)
  from handler_top_k [OF h1 h2 h3 request.sel a h6 a']
       handler_top_k [OF h1 h2 h3 request.sel b h6 b']
       handler_top_k [OF h1 h2 h3 request.sel c h6 c']
  show ?thesis
    by (simp add: echo_index_def echo echo_response_def)
qed

section \<open>Status of a 200 response\<close>

text \<open>
  C10. Every response with status 200 has the status field \<open>Success\<close>: past the handler's
  own check the matcher's guard cannot fire, so \<open>Service not initialized.\<close> never reaches a
  200 response.
\<close>

theorem handler_200_status:
  assumes "fst (query_part_finder st request) = Inr (r, 200)"
  shows "getitem (data r) ''status'' = Inr (PStr ''Success'')"
proof (cases "embedding_model st = None \<or> pc st = None")
  case True
  with assms show ?thesis by (simp add: query_part_finder_def)
next
  case False
  then have h: "embedding_model st \<noteq> None" "pc st \<noteq> None" by simp_all
  with assms show ?thesis
    by (auto simp: query_part_finder_def Let_def jsonify_def
             split: if_splits sum.splits bool.splits prod.splits
             dest: find_matching_parts_status [OF h])
qed

theorem handler_200_status_witness:
  "fst (query_part_finder healthy_state (Request (PDict [(''description'', PStr ''x'')]))) =
     Inr (jsonify (PDict [(''query_description'', PStr ''x''), (''status'', PStr ''Success''),
                          (''matches'', PList stub_results)]), 200)
   \<and> getitem (data (jsonify (PDict [(''query_description'', PStr ''x''),
                                     (''status'', PStr ''Success''),
                                     (''matches'', PList stub_results)]))) ''status'' =
       Inr (PStr ''Success'')"
proof -
  have run: "fst (query_part_finder healthy_state
                    (Request (PDict [(''description'', PStr ''x'')]))) =
     Inr (jsonify (PDict [(''query_description'', PStr ''x''), (''status'', PStr ''Success''),
                          (''matches'', PList stub_results)]), 200)"
    by (simp add: query_part_finder_def find_matching_parts_def healthy_state_def
          stub_model_def stub_index_def stub_match_1_def stub_match_2_def stub_match_3_def
          build_matches_def match_entry_def float_round_stub stub_results_def)
  from handler_200_status [OF run] run show ?thesis by simp
qed

section \<open>Bodies that are not JSON objects\<close>

lemma handler_bad_request:
  assumes "embedding_model st \<noteq> None" and "pc st \<noteq> None"
    and "\<not> truthy (get_json_silent request)
         \<or> py_in ''description'' (get_json_silent request) = Inr False"
  shows "query_part_finder st request =
           (Inr (jsonify (PDict [(''error'',
                   PStr ''Missing 'description' in request body.'')]), 400), [])"
  using assms by (auto simp: query_part_finder_def Let_def)

text \<open>
  When the parsed body is \<open>None\<close> or an object, the handler returns a response: a JSON
  object with \<open>matches\<close> or \<open>error\<close>, and a status of 200, 400 or 500.
\<close>

lemma handler_returns_on_objects:
  assumes "get_json_silent request = PNone \<or> get_json_silent request = PDict kvs"
  shows "\<exists>r body code. fst (query_part_finder st request) = Inr (r, code)
           \<and> data r = PDict body \<and> code \<in> {200, 400, 500}
           \<and> (''matches'' \<in> fst ` set body \<or> ''error'' \<in> fst ` set body)"
proof (cases "embedding_model st = None \<or> pc st = None")
  case True
  then show ?thesis by (simp add: query_part_finder_def jsonify_def)
next
  case False
  then have h: "embedding_model st \<noteq> None" "pc st \<noteq> None" by simp_all
  show ?thesis
  proof (cases "map_of kvs ''description''")
    case None
    then have "''description'' \<notin> fst ` set kvs" by (simp add: map_of_eq_None_iff)
    with assms have "\<not> truthy (get_json_silent request)
        \<or> py_in ''description'' (get_json_silent request) = Inr False"
      by auto
    from handler_bad_request [OF h this] show ?thesis by (simp add: jsonify_def)
  next
    case (Some d)
    show ?thesis
    proof (cases "get_json_silent request = PNone")
      case True
      then have "\<not> truthy (get_json_silent request)
          \<or> py_in ''description'' (get_json_silent request) = Inr False"
        by simp
      from handler_bad_request [OF h this] show ?thesis by (simp add: jsonify_def)
    next
      case False
      with assms have "get_json_silent request = PDict kvs" by simp
      from handler_well_formed [OF h this Some] show ?thesis
        by (auto simp: jsonify_def split: prod.splits sum.splits)
    qed
  qed
qed

text \<open>
  C1. The body \<open>5\<close> is valid JSON and truthy, so the handler evaluates
  \<open>'description' not in 5\<close>, outside the \<open>try\<close> block: a \<open>TypeError\<close> leaves the handler and no
  response is returned.
\<close>

theorem handler_raises_on_number:
  "query_part_finder healthy_state (Request (PInt 5)) =
     (Inl (Exn ''TypeError'' ''argument of type 'int' is not iterable''), [])"
  by (simp add: query_part_finder_def healthy_state_def quoted_def)

text \<open>
  C6. The body \<open>true\<close> is a JSON body without a \<open>description\<close> field; on a healthy service
  the membership test raises \<open>TypeError\<close> and the handler returns no 400 response.
\<close>

theorem handler_raises_on_true:
  "truthy (PBool True)
   \<and> getitem (PBool True) ''description'' =
       Inl (Exn ''TypeError'' (quoted ''bool'' @ '' object is not subscriptable''))
   \<and> query_part_finder healthy_state (Request (PBool True)) =
       (Inl (Exn ''TypeError'' ''argument of type 'bool' is not iterable''), [])"
  by (simp add: query_part_finder_def healthy_state_def quoted_def)

section \<open>Response headers\<close>

lemma handler_returns_jsonify:
  assumes "fst (query_part_finder st request) = Inr (r, code)"
  shows "headers r = [(''Content-Type'', ''application/json'')]"
  using assms
  by (auto simp: query_part_finder_def Let_def jsonify_def
           split: if_splits sum.splits bool.splits prod.splits)

text \<open>
  C2. The response the handler returns for the body \<open>{}\<close> is the one \<open>jsonify\<close> built, with
  status 400; it has no \<open>Access-Control-Allow-Origin\<close> header. The dictionary bound to
  \<open>headers\<close> is part of no returned value.
\<close>

theorem handler_no_cors_header:
  "query_part_finder healthy_state (Request (PDict [])) =
     (Inr (jsonify (PDict [(''error'',
             PStr ''Missing 'description' in request body.'')]), 400), [])
   \<and> map_of (headers (jsonify (PDict [(''error'',
             PStr ''Missing 'description' in request body.'')])))
        ''Access-Control-Allow-Origin'' = None"
  by (simp add: query_part_finder_def healthy_state_def jsonify_def)

end
